theory Spec2Isabelle
  imports Complex_Main "HOL-Library.Word"
begin

section \<open>The Night UI: operations and their fixed order (src/js/ui/night/ui.js)\<close>

subsection \<open>Objects\<close>

text \<open>
  Operation instances are JavaScript objects that the operations map, the operations
  stack and the closure of the update handler all refer to, so they live in an explicit
  store and are named by references.
\<close>

type_synonym ref = nat

text \<open>
  The only listener this file registers is the arrow function of lines 116-121; it
  captures the UI (\<open>this\<close>) and \<open>operationInstance\<close>, here the reference.
\<close>

datatype listener = NightUI_update ref

text \<open>
  An operation instance. \<open>params\<close> is everything the instance's own class keeps
  (its parameters); the class is not part of this file, so the type is left open.
  \<open>isIdentity\<close> is the attribute that the Night UI adds at line 114; \<open>None\<close> is a
  property that has not been assigned. \<open>listeners\<close> are the pairs of event name and
  listener, in the order of registration.
\<close>

record 'o operation =
  params :: 'o
  isIdentity :: "bool option"
  listeners :: "(string \<times> listener) list"

text \<open>
  The state the functions of the file read and write: \<open>this._paused\<close>,
  \<open>this._operationsMap\<close>, \<open>this._kit.operationsStack\<close>, the store of operation
  instances with its allocation counter, whether \<open>this._canvas\<close> has been
  assigned (line 89), and the log of the render passes that the canvas has run.
\<close>

record 'o night_ui =
  paused :: bool
  operationsMap :: "string \<rightharpoonup> ref"
  operationsStack :: "ref list"
  heap :: "ref \<rightharpoonup> 'o operation"
  next_ref :: ref
  canvas :: bool
  rendered :: "'o option list list"

text \<open>
  \<open>new X(...)\<close> where \<open>X\<close> is \<open>undefined\<close> throws a TypeError, and so does
  reading a property of \<open>undefined\<close>, as \<open>this._canvas.render\<close> does while
  \<open>this._canvas\<close> is not assigned.
\<close>

datatype error = NotAConstructor string | PropertyOfUndefined string | ConfigurationError

subsection \<open>The constructor: the preferred operation order (lines 25-42)\<close>

definition preferredOperationOrder :: "string list" where
  "preferredOperationOrder =
     [''crop-rotation'', ''flip'',
      ''filters'', ''contrast'', ''brightness'', ''saturation'',
      ''radial-blur'', ''tilt-shift'', ''frames'', ''stickers'', ''text'']"

text \<open>
  The three groups that the comments of lines 26, 30 and 36 give to the entries of the
  list: operations that affect the image dimensions, colour operations, post-processing.
\<close>

datatype operationGroup = Geometry | Color | PostProcessing

definition operationGroup :: "string \<Rightarrow> operationGroup" where
  "operationGroup i =
     (if i \<in> {''crop-rotation'', ''flip''} then Geometry
      else if i \<in> {''filters'', ''contrast'', ''brightness'', ''saturation''} then Color
      else PostProcessing)"

fun groupRank :: "operationGroup \<Rightarrow> nat" where
  "groupRank Geometry = 0"
| "groupRank Color = 1"
| "groupRank PostProcessing = 2"

subsection \<open>render (lines 223-225)\<close>

text \<open>
  Modelled from the spec: \<open>Canvas.render\<close> is not among the sources. A render pass
  composes the operations of the stack in stack order (section 2 of the specification),
  so a pass is recorded by the parameters of the operations on the stack, in that order,
  as they are when the pass runs.
\<close>

definition canvas_render :: "'o night_ui \<Rightarrow> 'o night_ui" where
  "canvas_render st =
     st\<lparr>rendered := rendered st @ [map (\<lambda>r. map_option params (heap st r)) (operationsStack st)]\<rparr>"

text \<open>
  \<open>render\<close> calls \<open>this._canvas.render()\<close>. The canvas is assigned by
  \<open>_initCanvas\<close> (line 89), which \<open>run\<close> calls after \<open>_initOperations\<close>;
  before that, and after a \<open>run\<close> that threw in between, the call throws.
\<close>

definition render :: "'o night_ui \<Rightarrow> (error + unit) \<times> 'o night_ui" where
  "render st =
     (if canvas st then (Inr (), canvas_render st)
      else (Inl (PropertyOfUndefined ''render''), st))"

subsection \<open>Events\<close>

text \<open>
  The handler of lines 116-121: nothing while the UI is paused; otherwise the captured
  instance gets \<open>isIdentity = false\<close> and the UI renders. When \<open>render\<close>
  throws, the handler throws, with \<open>isIdentity\<close> already assigned.
\<close>

fun run_listener :: "listener \<Rightarrow> 'o night_ui \<Rightarrow> (error + unit) \<times> 'o night_ui" where
  "run_listener (NightUI_update r) st =
     (if paused st then (Inr (), st)
      else render (st\<lparr>heap := (case heap st r of
                                 None \<Rightarrow> heap st
                               | Some ob \<Rightarrow> (heap st)(r \<mapsto> ob\<lparr>isIdentity := Some False\<rparr>))\<rparr>))"

text \<open>
  The event emitter of the operations (Node's \<open>EventEmitter\<close>): \<open>on\<close> appends a
  listener, \<open>emit\<close> calls the listeners of the event in the order of registration;
  an exception of a listener ends the calls and is thrown by \<open>emit\<close>.
\<close>

fun call_listeners :: "listener list \<Rightarrow> 'o night_ui \<Rightarrow> (error + unit) \<times> 'o night_ui" where
  "call_listeners [] st = (Inr (), st)"
| "call_listeners (l # ls) st =
     (case run_listener l st of
        (Inl e, st) \<Rightarrow> (Inl e, st)
      | (Inr u, st) \<Rightarrow> call_listeners ls st)"

definition on :: "string \<Rightarrow> listener \<Rightarrow> 'o operation \<Rightarrow> 'o operation" where
  "on ev l ob = ob\<lparr>listeners := listeners ob @ [(ev, l)]\<rparr>"

definition emit :: "ref \<Rightarrow> string \<Rightarrow> 'o night_ui \<Rightarrow> (error + unit) \<times> 'o night_ui" where
  "emit r ev st =
     (case heap st r of
        None \<Rightarrow> (Inr (), st)
      | Some ob \<Rightarrow> call_listeners (map snd (filter (\<lambda>(e, l). e = ev) (listeners ob))) st)"

subsection \<open>\_initOperations (lines 100-126)\<close>

text \<open>
  Modelled from the spec: \<open>isOperationSelected\<close> belongs to the base class of the UI,
  which is not among the sources. The caller gives the operations it activates, in the
  order it activates them, and an identifier is selected when it is among them
  (section 4.2: an identifier absent from the caller's active-operation set is skipped).
\<close>

definition isOperationSelected :: "string list \<Rightarrow> string \<Rightarrow> bool" where
  "isOperationSelected active i = (i \<in> set active)"

text \<open>
  \<open>new Operation(this.\_kit)\<close>: the constructors are not among the sources. The
  registry maps an identifier to what its constructor builds, here the parameters of the
  new instance; the instance starts without an \<open>isIdentity\<close> attribute and without
  listeners.
\<close>

definition new_Operation :: "'o \<Rightarrow> 'o operation" where
  "new_Operation c = \<lparr>params = c, isIdentity = None, listeners = []\<rparr>"

text \<open>
  The loop over the preferred order. The result pairs the outcome (\<open>Inl\<close> for the
  exception that ends the loop) with the state the loop leaves: what has been pushed
  before an exception stays pushed, as nothing in the function undoes it.
\<close>

fun initOperations_loop ::
  "(string \<Rightarrow> bool) \<Rightarrow> (string \<rightharpoonup> 'o) \<Rightarrow> string list \<Rightarrow> 'o night_ui
     \<Rightarrow> (error + unit) \<times> 'o night_ui" where
  "initOperations_loop selected registeredOperations [] st = (Inr (), st)"
| "initOperations_loop selected registeredOperations (operationIdentifier # rest) st =
     (if \<not> selected operationIdentifier
      then initOperations_loop selected registeredOperations rest st
      else case registeredOperations operationIdentifier of
        None \<Rightarrow> (Inl (NotAConstructor operationIdentifier), st)
      | Some Operation \<Rightarrow>
          let r = next_ref st;
              operationInstance = new_Operation Operation;
              operationInstance = operationInstance\<lparr>isIdentity := Some True\<rparr>;
              operationInstance = on ''update'' (NightUI_update r) operationInstance;
              st = st\<lparr>heap := (heap st)(r \<mapsto> operationInstance), next_ref := Suc r\<rparr>;
              st = st\<lparr>operationsMap := (operationsMap st)(operationIdentifier \<mapsto> r)\<rparr>;
              st = st\<lparr>operationsStack := operationsStack st @ [r]\<rparr>
          in initOperations_loop selected registeredOperations rest st)"

definition initOperations ::
  "(string \<Rightarrow> bool) \<Rightarrow> (string \<rightharpoonup> 'o) \<Rightarrow> 'o night_ui \<Rightarrow> (error + unit) \<times> 'o night_ui" where
  "initOperations selected registeredOperations st =
     initOperations_loop selected registeredOperations preferredOperationOrder st"

subsection \<open>\_initCanvas (lines 88-94) and run (lines 45-63)\<close>

text \<open>
  \<open>_initCanvas\<close> assigns \<open>this._canvas\<close> (line 89). The class of the canvas is
  not among the sources; of what its constructor and its \<open>run\<close> do, only the
  assignment is kept.
\<close>

definition initCanvas :: "'o night_ui \<Rightarrow> 'o night_ui" where
  "initCanvas st = st\<lparr>canvas := True\<rparr>"

text \<open>
  \<open>run\<close> empties the operations map (line 46), initialises the operations
  (line 57) and then the canvas (line 60); an exception of \<open>_initOperations\<close> ends
  it before the canvas is assigned. Its other lines build controls and look up elements
  of the page.
\<close>

definition run ::
  "(string \<Rightarrow> bool) \<Rightarrow> (string \<rightharpoonup> 'o) \<Rightarrow> 'o night_ui \<Rightarrow> (error + unit) \<times> 'o night_ui" where
  "run selected registeredOperations st =
     (let st = st\<lparr>operationsMap := Map.empty\<rparr>
      in case initOperations selected registeredOperations st of
           (Inl e, st) \<Rightarrow> (Inl e, st)
         | (Inr u, st) \<Rightarrow> (Inr (), initCanvas st))"

subsection \<open>Parameter changes and pausing\<close>





section \<open>The Orchid and Fixie filters (src/unnamed/part\_000)\<close>

subsection \<open>Primitives\<close>

text \<open>
  A control point is the pair \<open>[inputLevel, outputLevel]\<close>. The options of a tone
  curve are either \<open>rgbControlPoints\<close>, one list for each channel, or
  \<open>controlPoints\<close>, one list for all channels. The intensity of a desaturation is
  kept as the decimal the source writes.
\<close>

type_synonym controlPoint = "int \<times> int"

record rgbControlPoints =
  red :: "controlPoint list"
  green :: "controlPoint list"
  blue :: "controlPoint list"

datatype toneCurveOptions =
    RgbControlPoints rgbControlPoints
  | ControlPoints "controlPoint list"

datatype primitive =
    ToneCurve toneCurveOptions
  | Desaturation real

text \<open>
  Modelled from the spec: the invariant of section 3 on the control points of a channel,
  at least two points with strictly increasing input levels.
\<close>

definition wellFormed :: "controlPoint list \<Rightarrow> bool" where
  "wellFormed points = (2 \<le> length points \<and> sorted_wrt (<) (map fst points))"

text \<open>
  Modelled from the spec: section 3 puts the input and the output level of a control
  point between 0 and 255.
\<close>

definition levelsInRange :: "controlPoint list \<Rightarrow> bool" where
  "levelsInRange points =
     list_all (\<lambda>(x, y). 0 \<le> x \<and> x \<le> 255 \<and> 0 \<le> y \<and> y \<le> 255) points"

text \<open>
  Modelled from the spec: \<open>Filter.Primitives.ToneCurve\<close> is not among the sources.
  Section 7 makes fewer than two points or input levels that do not increase a
  configuration error, reported when the primitive is constructed.
\<close>

definition ToneCurve_new :: "toneCurveOptions \<Rightarrow> error + primitive" where
  "ToneCurve_new options =
     (if (case options of
            RgbControlPoints c \<Rightarrow> wellFormed (red c) \<and> wellFormed (green c) \<and> wellFormed (blue c)
          | ControlPoints c \<Rightarrow> wellFormed c)
      then Inr (ToneCurve options)
      else Inl ConfigurationError)"

text \<open>
  Modelled from the spec: \<open>Filter.Primitives.Desaturation\<close> is not among the
  sources, and the specification gives its construction no error.
\<close>

definition Desaturation_new :: "real \<Rightarrow> primitive" where
  "Desaturation_new desaturation = Desaturation desaturation"

subsection \<open>The stack of primitives\<close>

type_synonym primitivesStack = "primitive list"

text \<open>
  Modelled from the spec: \<open>Filter.PrimitivesStack\<close> is not among the sources. It is
  an ordered sequence of primitives (section 3), empty when it is created. The renderer
  is injected (section 2): \<open>renderPrimitive\<close> below is what it does with one
  primitive and the pixels it is given.
\<close>

definition PrimitivesStack_new :: primitivesStack where
  "PrimitivesStack_new = []"

text \<open>
  Modelled from the spec: \<open>add\<close> of the stack of primitives; the order of
  insertion is the order of execution (section 3), so a primitive is added at the end.
\<close>

definition PrimitivesStack_add :: "primitivesStack \<Rightarrow> primitive \<Rightarrow> primitivesStack" where
  "PrimitivesStack_add stack p = stack @ [p]"

text \<open>
  Modelled from the spec: \<open>render\<close> of the stack of primitives (section 4.4), the
  primitives front to back, each on the output of the one before; none is skipped.
\<close>

definition PrimitivesStack_render ::
  "(primitive \<Rightarrow> 'px \<Rightarrow> 'px) \<Rightarrow> primitivesStack \<Rightarrow> 'px \<Rightarrow> 'px" where
  "PrimitivesStack_render renderPrimitive stack pixels = fold renderPrimitive stack pixels"

subsection \<open>The render functions\<close>

text \<open>
  What a call of a filter's \<open>render\<close> can read and write: the filter instance it is
  called on (\<open>this\<close>) and the output of the renderer it is given. What it hands back
  is either \<open>undefined\<close> or a value.
\<close>

record ('f, 'px) rendering =
  this_filter :: 'f
  renderer_output :: 'px

datatype 'a returned = Undefined | Value 'a

text \<open>
  \<open>OrchidFilter.prototype.render\<close> (lines 33-76). The stack is built first
  (lines 34-73) from a tone curve with a list for each channel, a tone curve with one
  list, and a desaturation of 0.65; line 75 renders it. Line 75 is an expression
  statement and the function has no \<open>return\<close>, so it hands back \<open>undefined\<close>.
\<close>

definition OrchidFilter_rgbControlPoints :: rgbControlPoints where
  "OrchidFilter_rgbControlPoints =
     \<lparr>red = [(0, 0), (115, 130), (195, 215), (255, 255)],
      green = [(0, 0), (148, 153), (172, 215), (255, 255)],
      blue = [(0, 46), (58, 75), (178, 205), (255, 255)]\<rparr>"

definition OrchidFilter_controlPoints :: "controlPoint list" where
  "OrchidFilter_controlPoints = [(0, 0), (117, 151), (189, 217), (255, 255)]"

definition OrchidFilter_stack :: "error + primitivesStack" where
  "OrchidFilter_stack =
     (let stack = PrimitivesStack_new in
      case ToneCurve_new (RgbControlPoints OrchidFilter_rgbControlPoints) of
        Inl e \<Rightarrow> Inl e
      | Inr p \<Rightarrow>
     (let stack = PrimitivesStack_add stack p in
      case ToneCurve_new (ControlPoints OrchidFilter_controlPoints) of
        Inl e \<Rightarrow> Inl e
      | Inr p \<Rightarrow>
     (let stack = PrimitivesStack_add stack p;
          stack = PrimitivesStack_add stack (Desaturation_new 0.65)
      in Inr stack)))"

definition OrchidFilter_render ::
  "(primitive \<Rightarrow> 'px \<Rightarrow> 'px) \<Rightarrow> ('f, 'px) rendering
     \<Rightarrow> error + ('px returned \<times> ('f, 'px) rendering)" where
  "OrchidFilter_render renderPrimitive w =
     (case OrchidFilter_stack of
        Inl e \<Rightarrow> Inl e
      | Inr stack \<Rightarrow>
          let w = w\<lparr>renderer_output :=
                     PrimitivesStack_render renderPrimitive stack (renderer_output w)\<rparr>
          in Inr (Undefined, w))"

text \<open>
  \<open>FixieFilter.prototype.render\<close> (lines 111-144): one tone curve with a list for
  each channel.
\<close>

definition FixieFilter_rgbControlPoints :: rgbControlPoints where
  "FixieFilter_rgbControlPoints =
     \<lparr>red = [(0, 0), (44, 28), (63, 48), (128, 132), (235, 248), (255, 255)],
      green = [(0, 0), (20, 10), (60, 45), (190, 209), (211, 231), (255, 255)],
      blue = [(0, 31), (41, 62), (150, 142), (234, 212), (255, 224)]\<rparr>"

definition FixieFilter_stack :: "error + primitivesStack" where
  "FixieFilter_stack =
     (let stack = PrimitivesStack_new in
      case ToneCurve_new (RgbControlPoints FixieFilter_rgbControlPoints) of
        Inl e \<Rightarrow> Inl e
      | Inr p \<Rightarrow>
     (let stack = PrimitivesStack_add stack p
      in Inr stack))"

definition FixieFilter_render ::
  "(primitive \<Rightarrow> 'px \<Rightarrow> 'px) \<Rightarrow> ('f, 'px) rendering
     \<Rightarrow> error + ('px returned \<times> ('f, 'px) rendering)" where
  "FixieFilter_render renderPrimitive w =
     (case FixieFilter_stack of
        Inl e \<Rightarrow> Inl e
      | Inr stack \<Rightarrow>
          let w = w\<lparr>renderer_output :=
                     PrimitivesStack_render renderPrimitive stack (renderer_output w)\<rparr>
          in Inr (Undefined, w))"

subsection \<open>The tone curve\<close>

text \<open>
  Modelled from the spec: the interpolation of \<open>Filter.Primitives.ToneCurve\<close> is not
  among the sources. Section 4.1: the output level is a smooth spline through the
  control points, and Catmull-Rom is the spline it names first.

  \<open>catmullRom p0 p1 p2 p3 k d\<close> is the uniform Catmull-Rom segment from \<open>p1\<close> to
  \<open>p2\<close> with neighbours \<open>p0\<close> and \<open>p3\<close>, at the parameter \<open>k / d\<close>, rounded to
  the nearest integer; it is computed over the common denominator \<open>2 * d ^ 3\<close>.
\<close>

definition catmullRom :: "int \<Rightarrow> int \<Rightarrow> int \<Rightarrow> int \<Rightarrow> int \<Rightarrow> int \<Rightarrow> int" where
  "catmullRom p0 p1 p2 p3 k d =
     (let num = 2 * p1 * d ^ 3
              + (p2 - p0) * k * d ^ 2
              + (2 * p0 - 5 * p1 + 4 * p2 - p3) * k ^ 2 * d
              + (3 * p1 - p0 - 3 * p2 + p3) * k ^ 3;
          den = 2 * d ^ 3
      in (2 * num + den) div (2 * den))"

text \<open>
  Modelled from the spec: the spline through the control points (section 4.1). The
  segment that holds the input level \<open>x\<close> is looked for from the left;
  \<open>p0\<close> is the output of the control point before the segment. An end point is its
  own neighbour, and the curve is constant outside the control points.
\<close>

fun spline_from :: "int \<Rightarrow> controlPoint list \<Rightarrow> int \<Rightarrow> int" where
  "spline_from p0 [] x = p0"
| "spline_from p0 [(x1, y1)] x = y1"
| "spline_from p0 ((x1, y1) # (x2, y2) # rest) x =
     (if x < x1 then y1
      else if x < x2
      then catmullRom p0 y1 y2 (case rest of [] \<Rightarrow> y2 | (x3, y3) # _ \<Rightarrow> y3) (x - x1) (x2 - x1)
      else spline_from y1 ((x2, y2) # rest) x)"

text \<open>
  Modelled from the spec: the value of the spline of a list of control points at an
  input level (section 4.1).
\<close>

definition splineValue :: "controlPoint list \<Rightarrow> int \<Rightarrow> int" where
  "splineValue points x = (case points of [] \<Rightarrow> x | (x1, y1) # _ \<Rightarrow> spline_from y1 points x)"

text \<open>
  Modelled from the spec: the table of 256 entries of a channel, the spline at each
  input level, clamped to 0..255 after the interpolation (section 4.1).
\<close>

definition ToneCurve_lookupTable :: "controlPoint list \<Rightarrow> int list" where
  "ToneCurve_lookupTable points =
     map (\<lambda>v. max 0 (min 255 (splineValue points (int v)))) [0..<256]"

type_synonym pixel = "8 word \<times> 8 word \<times> 8 word"

text \<open>
  Modelled from the spec: what the tone curve does to a pixel of three channels of
  eight bits (section 4.1). One list is looked up for all three channels; three lists
  are looked up for one channel each.
\<close>

definition ToneCurve_apply :: "toneCurveOptions \<Rightarrow> pixel \<Rightarrow> pixel" where
  "ToneCurve_apply options px =
     (case px of (r, g, b) \<Rightarrow>
        (case options of
           RgbControlPoints c \<Rightarrow>
             (word_of_int (ToneCurve_lookupTable (red c) ! unat r),
              word_of_int (ToneCurve_lookupTable (green c) ! unat g),
              word_of_int (ToneCurve_lookupTable (blue c) ! unat b))
         | ControlPoints c \<Rightarrow>
             (word_of_int (ToneCurve_lookupTable c ! unat r),
              word_of_int (ToneCurve_lookupTable c ! unat g),
              word_of_int (ToneCurve_lookupTable c ! unat b))))"

subsection \<open>Auxiliary definitions\<close>

text \<open>
  What one passage through lines 107-124 does to the state when the constructor is
  found: the new instance is stored under a fresh reference, entered in the map and
  pushed.
\<close>

definition instantiated :: "string \<Rightarrow> 'o \<Rightarrow> 'o night_ui \<Rightarrow> 'o night_ui" where
  "instantiated i c st =
     st\<lparr>heap := (heap st)(next_ref st \<mapsto>
            \<lparr>params = c, isIdentity = Some True,
             listeners = [(''update'', NightUI_update (next_ref st))]\<rparr>),
        next_ref := Suc (next_ref st),
        operationsMap := (operationsMap st)(i \<mapsto> next_ref st),
        operationsStack := operationsStack st @ [next_ref st]\<rparr>"

text \<open>
  A UI that has not run yet, on a kit whose stack holds no operation: nothing is
  assigned, the canvas neither.
\<close>

definition initial_ui :: "'o night_ui" where
  "initial_ui = \<lparr>paused = False, operationsMap = Map.empty, operationsStack = [],
                 heap = Map.empty, next_ref = 0, canvas = False, rendered = []\<rparr>"

text \<open>
  Where an instance of the Night UI stands: it has been stored with the update handler
  of lines 116-121 as its listener.
\<close>

definition initialised :: "'o night_ui \<Rightarrow> ref \<Rightarrow> bool" where
  "initialised st r =
     (case heap st r of
        None \<Rightarrow> False
      | Some ob \<Rightarrow> listeners ob = [(''update'', NightUI_update r)])"

text \<open>
  Example inputs: a registry, states after \<open>run\<close> and changes of parameters.
\<close>

definition flip_registry :: "string \<rightharpoonup> string" where
  "flip_registry = [''flip'' \<mapsto> ''FlipOperation'']"

definition flip_ui :: "string night_ui" where
  "flip_ui = snd (run (isOperationSelected [''flip'']) flip_registry initial_ui)"

definition rerun_flip_ui :: "string night_ui" where
  "rerun_flip_ui = snd (run (isOperationSelected [''flip'']) flip_registry flip_ui)"

definition paused_flip_ui :: "string night_ui" where
  "paused_flip_ui =
     snd (run (isOperationSelected [''flip'']) flip_registry (initial_ui\<lparr>paused := True\<rparr>))"



section \<open>Properties of the Night UI\<close>

subsection \<open>The initialisation loop\<close>

lemma loop_skip:
  "\<not> sel i \<Longrightarrow> initOperations_loop sel reg (i # is) st = initOperations_loop sel reg is st"
  by simp

lemma loop_throw:
  "sel i \<Longrightarrow> reg i = None \<Longrightarrow>
   initOperations_loop sel reg (i # is) st = (Inl (NotAConstructor i), st)"
  by simp

lemma loop_push:
  "sel i \<Longrightarrow> reg i = Some c \<Longrightarrow>
   initOperations_loop sel reg (i # is) st = initOperations_loop sel reg is (instantiated i c st)"
  by (simp add: instantiated_def Let_def new_Operation_def on_def)

lemmas loop_cases = loop_skip loop_throw loop_push

declare initOperations_loop.simps(2) [simp del]

lemma instantiated_simps [simp]:
  "paused (instantiated i c st) = paused st"
  "rendered (instantiated i c st) = rendered st"
  "canvas (instantiated i c st) = canvas st"
  "next_ref (instantiated i c st) = Suc (next_ref st)"
  "operationsStack (instantiated i c st) = operationsStack st @ [next_ref st]"
  "operationsMap (instantiated i c st) = (operationsMap st)(i \<mapsto> next_ref st)"
  "heap (instantiated i c st) = (heap st)(next_ref st \<mapsto>
      \<lparr>params = c, isIdentity = Some True,
       listeners = [(''update'', NightUI_update (next_ref st))]\<rparr>)"
  by (simp_all add: instantiated_def)

lemma loop_induct [case_names Nil Skip Throw Push]:
  assumes "\<And>st. P [] st"
    and "\<And>i is st. \<not> sel i \<Longrightarrow> P is st \<Longrightarrow> P (i # is) st"
    and "\<And>i is st. sel i \<Longrightarrow> reg i = None \<Longrightarrow> P (i # is) st"
    and "\<And>i is c st. sel i \<Longrightarrow> reg i = Some c \<Longrightarrow> P is (instantiated i c st) \<Longrightarrow> P (i # is) st"
  shows "P is st"
proof (induction "is" arbitrary: st)
  case Nil
  show ?case by (rule assms(1))
next
  case (Cons i "is")
  show ?case
  proof (cases "sel i")
    case False
    then show ?thesis using assms(2) Cons.IH by blast
  next
    case True
    then show ?thesis using assms(3,4) Cons.IH by (cases "reg i") blast+
  qed
qed

lemma loop_paused: "paused (snd (initOperations_loop sel reg is st)) = paused st"
  by (induction "is" st rule: loop_induct [where sel = sel and reg = reg])
     (simp_all add: loop_cases)

lemma loop_rendered: "rendered (snd (initOperations_loop sel reg is st)) = rendered st"
  by (induction "is" st rule: loop_induct [where sel = sel and reg = reg])
     (simp_all add: loop_cases)

lemma loop_next_ref_mono: "next_ref st \<le> next_ref (snd (initOperations_loop sel reg is st))"
  by (induction "is" st rule: loop_induct [where sel = sel and reg = reg])
     (simp_all add: loop_cases Suc_leD)

lemma loop_stack:
  "operationsStack (snd (initOperations_loop sel reg is st)) =
     operationsStack st @ [next_ref st ..< next_ref (snd (initOperations_loop sel reg is st))]"
proof (induction "is" st rule: loop_induct [where sel = sel and reg = reg])
  case (Push i "is" c st)
  have "Suc (next_ref st) \<le> next_ref (snd (initOperations_loop sel reg is (instantiated i c st)))"
    using loop_next_ref_mono [of "instantiated i c st" sel reg "is"] by simp
  then have "[next_ref st ..< next_ref (snd (initOperations_loop sel reg is (instantiated i c st)))]
       = next_ref st # [Suc (next_ref st) ..< next_ref (snd (initOperations_loop sel reg is (instantiated i c st)))]"
    by (simp add: upt_conv_Cons)
  with Push show ?case by (simp add: loop_cases)
qed (simp_all add: loop_cases)

lemma loop_ok:
  "fst (initOperations_loop sel reg is st) = Inr () \<longleftrightarrow> (\<forall>i \<in> set is. sel i \<longrightarrow> reg i \<noteq> None)"
  by (induction "is" st rule: loop_induct [where sel = sel and reg = reg])
     (auto simp add: loop_cases)

lemma loop_count:
  "\<forall>i \<in> set is. sel i \<longrightarrow> reg i \<noteq> None \<Longrightarrow>
   next_ref (snd (initOperations_loop sel reg is st)) = next_ref st + length (filter sel is)"
  by (induction "is" st rule: loop_induct [where sel = sel and reg = reg])
     (auto simp add: loop_cases)

lemma loop_map_other:
  "i \<notin> set is \<Longrightarrow> operationsMap (snd (initOperations_loop sel reg is st)) i = operationsMap st i"
  by (induction "is" st rule: loop_induct [where sel = sel and reg = reg])
     (auto simp add: loop_cases)

lemma loop_map:
  "distinct is \<Longrightarrow> \<forall>i \<in> set is. sel i \<longrightarrow> reg i \<noteq> None \<Longrightarrow>
   map (operationsMap (snd (initOperations_loop sel reg is st))) (filter sel is) =
     map Some [next_ref st ..< next_ref (snd (initOperations_loop sel reg is st))]"
proof (induction "is" st rule: loop_induct [where sel = sel and reg = reg])
  case (Push i "is" c st)
  have "Suc (next_ref st) \<le> next_ref (snd (initOperations_loop sel reg is (instantiated i c st)))"
    using loop_next_ref_mono [of "instantiated i c st" sel reg "is"] by simp
  then have "[next_ref st ..< next_ref (snd (initOperations_loop sel reg is (instantiated i c st)))]
       = next_ref st # [Suc (next_ref st) ..< next_ref (snd (initOperations_loop sel reg is (instantiated i c st)))]"
    by (simp add: upt_conv_Cons)
  moreover have "operationsMap (snd (initOperations_loop sel reg is (instantiated i c st))) i = Some (next_ref st)"
    using Push.prems(1) by (simp add: loop_map_other)
  ultimately show ?case using Push by (simp add: loop_cases)
qed (auto simp add: loop_cases)

lemma loop_heap_old:
  "r < next_ref st \<Longrightarrow> heap (snd (initOperations_loop sel reg is st)) r = heap st r"
  by (induction "is" st rule: loop_induct [where sel = sel and reg = reg])
     (auto simp add: loop_cases)

lemma loop_heap_new:
  "next_ref st \<le> r \<Longrightarrow> r < next_ref (snd (initOperations_loop sel reg is st)) \<Longrightarrow>
   \<exists>c. heap (snd (initOperations_loop sel reg is st)) r =
     Some \<lparr>params = c, isIdentity = Some True, listeners = [(''update'', NightUI_update r)]\<rparr>"
proof (induction "is" st rule: loop_induct [where sel = sel and reg = reg])
  case (Push i "is" c st)
  show ?case
  proof (cases "r = next_ref st")
    case True
    then show ?thesis using Push.hyps by (simp add: loop_cases loop_heap_old)
  next
    case False
    then show ?thesis using Push by (simp add: loop_cases)
  qed
qed (auto simp add: loop_cases)

lemma loop_map_range:
  "operationsMap (snd (initOperations_loop sel reg is st)) i = Some r \<Longrightarrow>
   operationsMap st i = Some r \<or>
   (next_ref st \<le> r \<and> r < next_ref (snd (initOperations_loop sel reg is st)))"
proof (induction "is" st rule: loop_induct [where sel = sel and reg = reg])
  case (Push j "is" c st)
  have "Suc (next_ref st) \<le> next_ref (snd (initOperations_loop sel reg is (instantiated j c st)))"
    using loop_next_ref_mono [of "instantiated j c st" sel reg "is"] by simp
  then show ?case using Push by (auto simp add: loop_cases split: if_splits)
qed (auto simp add: loop_cases)

lemma loop_heap_params:
  "\<forall>i \<in> set is. sel i \<longrightarrow> reg i \<noteq> None \<Longrightarrow>
   map (\<lambda>r. map_option params (heap (snd (initOperations_loop sel reg is st)) r))
       [next_ref st ..< next_ref (snd (initOperations_loop sel reg is st))] =
     map reg (filter sel is)"
proof (induction "is" st rule: loop_induct [where sel = sel and reg = reg])
  case (Push i "is" c st)
  have "Suc (next_ref st) \<le> next_ref (snd (initOperations_loop sel reg is (instantiated i c st)))"
    using loop_next_ref_mono [of "instantiated i c st" sel reg "is"] by simp
  then have "[next_ref st ..< next_ref (snd (initOperations_loop sel reg is (instantiated i c st)))]
       = next_ref st # [Suc (next_ref st) ..< next_ref (snd (initOperations_loop sel reg is (instantiated i c st)))]"
    by (simp add: upt_conv_Cons)
  moreover have "heap (snd (initOperations_loop sel reg is (instantiated i c st))) (next_ref st) =
      heap (instantiated i c st) (next_ref st)"
    by (rule loop_heap_old) simp
  ultimately show ?case using Push by (simp add: loop_cases)
qed (auto simp add: loop_cases)

lemma preferredOperationOrder_distinct: "distinct preferredOperationOrder"
  by (simp add: preferredOperationOrder_def)

lemma preferredOperationOrder_groups:
  "sorted (map (groupRank \<circ> operationGroup) preferredOperationOrder)"
  by (simp add: preferredOperationOrder_def operationGroup_def)

lemma isOperationSelected_set:
  "set active' = set active \<Longrightarrow> isOperationSelected active' = isOperationSelected active"
  by (simp add: isOperationSelected_def fun_eq_iff)

lemma loop_canvas: "canvas (snd (initOperations_loop sel reg is st)) = canvas st"
  by (induction "is" st rule: loop_induct [where sel = sel and reg = reg])
     (simp_all add: loop_cases)

lemma run_fst:
  "fst (run sel reg st) =
     fst (initOperations_loop sel reg preferredOperationOrder (st\<lparr>operationsMap := Map.empty\<rparr>))"
  by (simp add: run_def initOperations_def Let_def split: prod.splits sum.splits)

lemma run_snd:
  "snd (run sel reg st) =
     (let res = initOperations_loop sel reg preferredOperationOrder
                  (st\<lparr>operationsMap := Map.empty\<rparr>)
      in if fst res = Inr () then (snd res)\<lparr>canvas := True\<rparr> else snd res)"
  by (auto simp add: run_def initOperations_def initCanvas_def Let_def
      split: prod.splits sum.splits)

lemma run_fields:
  "operationsStack (snd (run sel reg st)) =
     operationsStack (snd (initOperations_loop sel reg preferredOperationOrder
       (st\<lparr>operationsMap := Map.empty\<rparr>)))"
  "operationsMap (snd (run sel reg st)) =
     operationsMap (snd (initOperations_loop sel reg preferredOperationOrder
       (st\<lparr>operationsMap := Map.empty\<rparr>)))"
  "heap (snd (run sel reg st)) =
     heap (snd (initOperations_loop sel reg preferredOperationOrder
       (st\<lparr>operationsMap := Map.empty\<rparr>)))"
  "next_ref (snd (run sel reg st)) =
     next_ref (snd (initOperations_loop sel reg preferredOperationOrder
       (st\<lparr>operationsMap := Map.empty\<rparr>)))"
  "paused (snd (run sel reg st)) = paused st"
  "rendered (snd (run sel reg st)) = rendered st"
  "canvas (snd (run sel reg st)) = (fst (run sel reg st) = Inr () \<or> canvas st)"
  by (simp_all add: run_snd run_fst Let_def loop_paused loop_rendered loop_canvas)

subsection \<open>The order of the stack\<close>

text \<open>
  Claim C1. Whatever operations the caller activates and in whatever order it does so,
  provided each active identifier of the preferred order has a registered constructor,
  \<open>run\<close> succeeds and pushes one new instance for each active identifier of the
  preferred order, in that order: taken in the preferred order, the instances that the
  operations map records for the active identifiers are the pushed stack entries in stack
  order, and each was built by the constructor registered for its identifier. Two
  activation orders of the same operations give the same result, and in the stack
  geometry operations come before colour operations, which come before post-processing.
\<close>

theorem operations_in_preferred_order:
  assumes registered:
      "\<forall>i \<in> set preferredOperationOrder. i \<in> set active \<longrightarrow> registeredOperations i \<noteq> None"
    and same: "set active' = set active"
  shows "\<exists>st' new.
      run (isOperationSelected active) registeredOperations st = (Inr (), st')
    \<and> run (isOperationSelected active') registeredOperations st = (Inr (), st')
    \<and> operationsStack st' = operationsStack st @ new
    \<and> distinct new
    \<and> map Some new =
        map (operationsMap st') (filter (\<lambda>i. i \<in> set active) preferredOperationOrder)
    \<and> map (\<lambda>r. map_option params (heap st' r)) new =
        map registeredOperations (filter (\<lambda>i. i \<in> set active) preferredOperationOrder)
    \<and> sorted (map (groupRank \<circ> operationGroup)
        (filter (\<lambda>i. i \<in> set active) preferredOperationOrder))"
proof -
  let ?sel = "isOperationSelected active"
  let ?st0 = "st\<lparr>operationsMap := Map.empty\<rparr>"
  let ?res = "initOperations_loop ?sel registeredOperations preferredOperationOrder ?st0"
  let ?new = "[next_ref st ..< next_ref (snd ?res)]"
  have sel: "?sel = (\<lambda>i. i \<in> set active)"
    by (simp add: isOperationSelected_def fun_eq_iff)
  have reg: "\<forall>i \<in> set preferredOperationOrder. ?sel i \<longrightarrow> registeredOperations i \<noteq> None"
    using registered by (simp add: sel)
  let ?st' = "(snd ?res)\<lparr>canvas := True\<rparr>"
  have "fst ?res = Inr ()"
    using reg by (simp add: loop_ok)
  then have r1: "run ?sel registeredOperations st = (Inr (), ?st')"
    by (simp add: prod_eq_iff run_fst run_snd)
  have r2: "run (isOperationSelected active') registeredOperations st = (Inr (), ?st')"
    using r1 isOperationSelected_set [OF same] by simp
  have s: "operationsStack (snd ?res) = operationsStack st @ ?new"
    using loop_stack [of ?sel registeredOperations preferredOperationOrder ?st0] by simp
  have m: "map Some ?new = map (operationsMap (snd ?res)) (filter (\<lambda>i. i \<in> set active) preferredOperationOrder)"
    using loop_map [OF preferredOperationOrder_distinct reg, of ?st0] by (simp add: sel)
  have h: "map (\<lambda>r. map_option params (heap (snd ?res) r)) ?new =
        map registeredOperations (filter (\<lambda>i. i \<in> set active) preferredOperationOrder)"
    using loop_heap_params [OF reg, of ?st0] by (simp add: sel)
  have g: "sorted (map (groupRank \<circ> operationGroup)
        (filter (\<lambda>i. i \<in> set active) preferredOperationOrder))"
    using preferredOperationOrder_groups by (rule sorted_filter)
  show ?thesis
    using r1 r2 s m h g by (intro exI [of _ ?st'] exI [of _ ?new]) simp
qed

theorem operations_in_preferred_order_witness:
  "(\<exists>st' new.
      run (isOperationSelected [''saturation'', ''crop-rotation'', ''filters'']) Some
        (initial_ui :: string night_ui) = (Inr (), st')
    \<and> run (isOperationSelected [''filters'', ''crop-rotation'', ''saturation'']) Some
        (initial_ui :: string night_ui) = (Inr (), st')
    \<and> operationsStack st' = new
    \<and> map Some new = map (operationsMap st') [''crop-rotation'', ''filters'', ''saturation'']
    \<and> map (\<lambda>r. map_option params (heap st' r)) new =
        [Some ''crop-rotation'', Some ''filters'', Some ''saturation''])
   \<and> operationsStack (snd (run (isOperationSelected [''saturation'', ''crop-rotation'', ''filters''])
        Some (initial_ui :: string night_ui))) = [0, 1, 2]"
proof -
  have v: "operationsStack (snd (run (isOperationSelected [''saturation'', ''crop-rotation'', ''filters''])
        Some (initial_ui :: string night_ui))) = [0, 1, 2]"
    by (simp add: run_fields initOperations_def preferredOperationOrder_def isOperationSelected_def
        initial_ui_def initOperations_loop.simps(2) Let_def)
  have h1: "\<forall>i \<in> set preferredOperationOrder.
      i \<in> set [''saturation'', ''crop-rotation'', ''filters''] \<longrightarrow> Some i \<noteq> None"
    by simp
  have h2: "set [''filters'', ''crop-rotation'', ''saturation''] =
      set [''saturation'', ''crop-rotation'', ''filters'']"
    by auto
  have f: "filter (\<lambda>i. i \<in> set [''saturation'', ''crop-rotation'', ''filters''])
      preferredOperationOrder = [''crop-rotation'', ''filters'', ''saturation'']"
    by (simp add: preferredOperationOrder_def)
  have e: "operationsStack (initial_ui :: string night_ui) = []"
    by (simp add: initial_ui_def)
  show ?thesis
    using operations_in_preferred_order [OF h1 h2, of initial_ui] v
    unfolding f e by auto
qed

subsection \<open>An identifier without a constructor\<close>

lemma loop_append:
  "fst (initOperations_loop sel reg pre st) = Inr () \<Longrightarrow>
   initOperations_loop sel reg (pre @ rest) st =
     initOperations_loop sel reg rest (snd (initOperations_loop sel reg pre st))"
  by (induction pre st rule: loop_induct [where sel = sel and reg = reg])
     (simp_all add: loop_cases)

text \<open>
  Claim C2, as the code has it. When an active identifier of the preferred order has no
  registered constructor, and every active identifier before it has one, the
  initialisation throws at that identifier, and the state it leaves is the state after
  the identifiers before it: their instances have been pushed, one for each, and are
  in the operations map; nothing takes them back. An identifier that is not active is
  skipped, with or without a constructor.
\<close>

theorem unknown_identifier_throws:
  assumes "preferredOperationOrder = earlier @ i # later"
    and "selected i"
    and "registeredOperations i = None"
    and "\<forall>j \<in> set earlier. selected j \<longrightarrow> registeredOperations j \<noteq> None"
  shows "initOperations selected registeredOperations st =
      (Inl (NotAConstructor i), snd (initOperations_loop selected registeredOperations earlier st))
    \<and> fst (initOperations_loop selected registeredOperations earlier st) = Inr ()
    \<and> operationsStack (snd (initOperations selected registeredOperations st)) =
        operationsStack st @ [next_ref st ..< next_ref st + length (filter selected earlier)]
    \<and> map (operationsMap (snd (initOperations selected registeredOperations st)))
          (filter selected earlier) =
        map Some [next_ref st ..< next_ref st + length (filter selected earlier)]
    \<and> (\<not> selected j \<longrightarrow>
         initOperations_loop selected registeredOperations (j # rest) st' =
         initOperations_loop selected registeredOperations rest st')"
proof -
  let ?pre = "initOperations_loop selected registeredOperations earlier st"
  have ok: "fst ?pre = Inr ()"
    using assms(4) by (simp add: loop_ok)
  have split: "initOperations selected registeredOperations st =
      initOperations_loop selected registeredOperations (i # later) (snd ?pre)"
    using loop_append [OF ok] by (simp add: initOperations_def assms(1))
  have thrown: "initOperations selected registeredOperations st =
      (Inl (NotAConstructor i), snd ?pre)"
    using assms(2,3) by (simp add: split loop_cases)
  have n: "next_ref (snd ?pre) = next_ref st + length (filter selected earlier)"
    using assms(4) by (rule loop_count)
  have s: "operationsStack (snd ?pre) =
      operationsStack st @ [next_ref st ..< next_ref st + length (filter selected earlier)]"
    using loop_stack [of selected registeredOperations earlier st] by (simp add: n)
  have "distinct earlier"
    using preferredOperationOrder_distinct by (simp add: assms(1))
  then have m: "map (operationsMap (snd ?pre)) (filter selected earlier) =
      map Some [next_ref st ..< next_ref st + length (filter selected earlier)]"
    using loop_map [OF _ assms(4), of st] by (simp add: n)
  show ?thesis
    using ok thrown s m by (simp add: loop_cases)
qed

theorem unknown_identifier_throws_witness:
  "initOperations (isOperationSelected [''flip'', ''filters'']) flip_registry initial_ui =
      (Inl (NotAConstructor ''filters''),
       snd (initOperations_loop (isOperationSelected [''flip'', ''filters'']) flip_registry
              [''crop-rotation'', ''flip''] initial_ui))
   \<and> operationsStack (snd (initOperations (isOperationSelected [''flip'', ''filters''])
        flip_registry initial_ui)) = [0]"
proof -
  have h1: "preferredOperationOrder = [''crop-rotation'', ''flip''] @ ''filters'' #
      [''contrast'', ''brightness'', ''saturation'', ''radial-blur'', ''tilt-shift'',
       ''frames'', ''stickers'', ''text'']"
    by (simp add: preferredOperationOrder_def)
  have h2: "isOperationSelected [''flip'', ''filters''] ''filters''"
    by (simp add: isOperationSelected_def)
  have h3: "flip_registry ''filters'' = None"
    by (simp add: flip_registry_def)
  have h4: "\<forall>j \<in> set [''crop-rotation'', ''flip''].
      isOperationSelected [''flip'', ''filters''] j \<longrightarrow> flip_registry j \<noteq> None"
    by (simp add: isOperationSelected_def flip_registry_def)
  have f: "filter (isOperationSelected [''flip'', ''filters'']) [''crop-rotation'', ''flip'']
      = [''flip'']"
    by (simp add: isOperationSelected_def)
  have e: "operationsStack (initial_ui :: string night_ui) = []"
      "next_ref (initial_ui :: string night_ui) = 0"
    by (simp_all add: initial_ui_def)
  show ?thesis
    using unknown_identifier_throws [OF h1 h2 h3 h4, of initial_ui "''text''" "[]" initial_ui,
        unfolded f e]
    by (elim conjE) simp
qed

text \<open>
  Claim C2, as it is stated, fails: with \<open>flip\<close> and \<open>filters\<close> active
  and a constructor registered for \<open>flip\<close> only, the initialisation throws at
  \<open>filters\<close> and the stack, empty before, holds the instance of \<open>flip\<close>.
\<close>

theorem unknown_identifier_counterexample:
  "fst (run (isOperationSelected [''flip'', ''filters'']) flip_registry initial_ui)
     = Inl (NotAConstructor ''filters'')
   \<and> operationsStack (snd (run (isOperationSelected [''flip'', ''filters'']) flip_registry initial_ui))
     = [0]
   \<and> operationsStack (snd (run (isOperationSelected [''flip'', ''filters'']) flip_registry initial_ui))
     \<noteq> operationsStack (initial_ui :: string night_ui)"
  by (simp add: run_fields run_fst initOperations_def preferredOperationOrder_def
      isOperationSelected_def flip_registry_def initial_ui_def initOperations_loop.simps(2) Let_def)

subsection \<open>One instance for an identifier\<close>

lemma loop_map_fresh:
  "\<forall>i r. operationsMap st i = Some r \<longrightarrow> r < next_ref st \<Longrightarrow>
   operationsMap (snd (initOperations_loop sel reg is st)) i = Some r \<Longrightarrow>
   r < next_ref (snd (initOperations_loop sel reg is st))"
proof (induction "is" st arbitrary: i r rule: loop_induct [where sel = sel and reg = reg])
  case (Push j "is" c st)
  have "\<forall>i r. operationsMap (instantiated j c st) i = Some r \<longrightarrow> r < next_ref (instantiated j c st)"
    using Push.prems(1) by (auto simp add: less_Suc_eq)
  then show ?case using Push.IH Push.prems(2) Push.hyps by (simp add: loop_cases)
qed (auto simp add: loop_cases)

lemma loop_map_inj:
  "\<forall>i r. operationsMap st i = Some r \<longrightarrow> r < next_ref st \<Longrightarrow>
   \<forall>i j r. operationsMap st i = Some r \<and> operationsMap st j = Some r \<longrightarrow> i = j \<Longrightarrow>
   operationsMap (snd (initOperations_loop sel reg is st)) i = Some r \<Longrightarrow>
   operationsMap (snd (initOperations_loop sel reg is st)) j = Some r \<Longrightarrow> i = j"
proof (induction "is" st arbitrary: i j r rule: loop_induct [where sel = sel and reg = reg])
  case (Push k "is" c st)
  have 1: "\<forall>i r. operationsMap (instantiated k c st) i = Some r \<longrightarrow> r < next_ref (instantiated k c st)"
    using Push.prems(1) by (auto simp add: less_Suc_eq)
  have 2: "\<forall>i j r. operationsMap (instantiated k c st) i = Some r \<and>
      operationsMap (instantiated k c st) j = Some r \<longrightarrow> i = j"
    using Push.prems(1,2) by (auto split: if_splits)
  show ?case
    using Push.IH [OF 1 2] Push.prems(3,4) Push.hyps by (simp add: loop_cases)
qed (auto simp add: loop_cases)

lemma loop_map_onto:
  "distinct is \<Longrightarrow> next_ref st \<le> r \<Longrightarrow> r < next_ref (snd (initOperations_loop sel reg is st)) \<Longrightarrow>
   \<exists>i. operationsMap (snd (initOperations_loop sel reg is st)) i = Some r"
proof (induction "is" st rule: loop_induct [where sel = sel and reg = reg])
  case (Push i "is" c st)
  show ?case
  proof (cases "r = next_ref st")
    case True
    have "operationsMap (snd (initOperations_loop sel reg is (instantiated i c st))) i = Some (next_ref st)"
      using Push.prems(1) by (simp add: loop_map_other)
    then show ?thesis using True Push.hyps by (auto simp add: loop_cases)
  next
    case False
    then show ?thesis using Push by (simp add: loop_cases)
  qed
qed (auto simp add: loop_cases)

lemma distinct_count_le_1:
  "distinct xs \<Longrightarrow> length (filter (\<lambda>r. m = Some r) xs) \<le> Suc 0"
  by (induction xs) (auto simp add: filter_empty_conv)

text \<open>
  Claim C9, as the code has it. When the stack of the kit is empty before \<open>run\<close>,
  then after it, whatever its outcome, no instance is on the stack twice, the instance that the
  operations map records for an identifier is on the stack at most once, every instance
  on the stack is recorded for exactly one identifier, and every recorded instance is
  on the stack.
\<close>

theorem one_instance_per_identifier:
  assumes "operationsStack st = []"
    and "run selected registeredOperations st = (outcome, st')"
  shows "distinct (operationsStack st')
    \<and> (\<forall>i. length (filter (\<lambda>r. operationsMap st' i = Some r) (operationsStack st')) \<le> 1)
    \<and> (\<forall>r \<in> set (operationsStack st'). \<exists>!i. operationsMap st' i = Some r)
    \<and> (\<forall>i r. operationsMap st' i = Some r \<longrightarrow> r \<in> set (operationsStack st'))"
proof -
  let ?st0 = "st\<lparr>operationsMap := Map.empty\<rparr>"
  let ?res = "initOperations_loop selected registeredOperations preferredOperationOrder ?st0"
  have st': "st' = snd (run selected registeredOperations st)"
    using assms(2) by simp
  have fs: "operationsStack st' = operationsStack (snd ?res)"
      "operationsMap st' = operationsMap (snd ?res)"
    by (simp_all add: st' run_fields)
  have s: "operationsStack (snd ?res) = [next_ref st ..< next_ref (snd ?res)]"
    using loop_stack [of selected registeredOperations preferredOperationOrder ?st0] assms(1)
    by simp
  have d: "distinct (operationsStack (snd ?res))"
    by (simp add: s)
  have c: "\<forall>i. length (filter (\<lambda>r. operationsMap (snd ?res) i = Some r)
      (operationsStack (snd ?res))) \<le> 1"
    using distinct_count_le_1 [OF d] by simp
  have on_stack: "r \<in> set (operationsStack (snd ?res))"
    if "operationsMap (snd ?res) i = Some r" for i r
    using loop_map_range [of selected registeredOperations preferredOperationOrder ?st0 i r] that
    by (simp add: s)
  have inj: "i = j"
    if "operationsMap (snd ?res) i = Some r" "operationsMap (snd ?res) j = Some r" for i j r
    using loop_map_inj [of ?st0 selected registeredOperations preferredOperationOrder i r j] that
    by simp
  have onto: "\<exists>i. operationsMap (snd ?res) i = Some r"
    if "r \<in> set (operationsStack (snd ?res))" for r
    using loop_map_onto [OF preferredOperationOrder_distinct, of ?st0 r selected registeredOperations]
      that
    by (simp add: s)
  have u: "\<forall>r \<in> set (operationsStack (snd ?res)). \<exists>!i. operationsMap (snd ?res) i = Some r"
    using onto inj by blast
  show ?thesis
    unfolding fs using d c u on_stack by blast
qed

theorem one_instance_per_identifier_witness:
  "operationsStack (initial_ui :: string night_ui) = []
   \<and> operationsStack (snd (run (isOperationSelected [''saturation'', ''flip'']) Some
        (initial_ui :: string night_ui))) = [0, 1]
   \<and> distinct (operationsStack (snd (run (isOperationSelected [''saturation'', ''flip'']) Some
        (initial_ui :: string night_ui))))"
proof -
  have h1: "operationsStack (initial_ui :: string night_ui) = []"
    by (simp add: initial_ui_def)
  have h2: "run (isOperationSelected [''saturation'', ''flip'']) Some (initial_ui :: string night_ui) =
      (fst (run (isOperationSelected [''saturation'', ''flip'']) Some (initial_ui :: string night_ui)),
       snd (run (isOperationSelected [''saturation'', ''flip'']) Some (initial_ui :: string night_ui)))"
    by simp
  have v: "operationsStack (snd (run (isOperationSelected [''saturation'', ''flip'']) Some
        (initial_ui :: string night_ui))) = [0, 1]"
    by (simp add: run_fields initOperations_def preferredOperationOrder_def isOperationSelected_def
        initial_ui_def initOperations_loop.simps(2) Let_def)
  show ?thesis
    using one_instance_per_identifier [OF h1 h2] h1 v by simp
qed

lemma flip_ui_eq:
  "flip_ui =
     \<lparr>paused = False, operationsMap = [''flip'' \<mapsto> 0], operationsStack = [0],
      heap = [0 \<mapsto> \<lparr>params = ''FlipOperation'', isIdentity = Some True,
                      listeners = [(''update'', NightUI_update 0)]\<rparr>],
      next_ref = Suc 0, canvas = True, rendered = []\<rparr>"
  by (simp add: flip_ui_def run_def initOperations_def initCanvas_def preferredOperationOrder_def
      isOperationSelected_def flip_registry_def initial_ui_def initOperations_loop.simps(2)
      Let_def new_Operation_def on_def)

text \<open>
  Claim C9, as it is stated, fails: \<open>run\<close> empties the operations map but not the
  stack of the kit. A second \<open>run\<close> with \<open>flip\<close> active succeeds and leaves
  two instances on the stack, both built by the constructor registered for
  \<open>flip\<close>; the operations map records the second one only.
\<close>

theorem second_run_counterexample:
  "fst (run (isOperationSelected [''flip'']) flip_registry initial_ui) = Inr ()
   \<and> flip_ui = snd (run (isOperationSelected [''flip'']) flip_registry initial_ui)
   \<and> operationsStack flip_ui = [0]
   \<and> fst (run (isOperationSelected [''flip'']) flip_registry flip_ui) = Inr ()
   \<and> rerun_flip_ui = snd (run (isOperationSelected [''flip'']) flip_registry flip_ui)
   \<and> operationsStack rerun_flip_ui = [0, 1]
   \<and> flip_registry ''flip'' = Some ''FlipOperation''
   \<and> map_option params (heap rerun_flip_ui 0) = Some ''FlipOperation''
   \<and> map_option params (heap rerun_flip_ui 1) = Some ''FlipOperation''
   \<and> operationsMap rerun_flip_ui ''flip'' = Some 1"
proof -
  have r: "rerun_flip_ui =
     \<lparr>paused = False, operationsMap = [''flip'' \<mapsto> 1], operationsStack = [0, 1],
      heap = [0 \<mapsto> \<lparr>params = ''FlipOperation'', isIdentity = Some True,
                      listeners = [(''update'', NightUI_update 0)]\<rparr>,
              1 \<mapsto> \<lparr>params = ''FlipOperation'', isIdentity = Some True,
                      listeners = [(''update'', NightUI_update 1)]\<rparr>],
      next_ref = 2, canvas = True, rendered = []\<rparr>"
    by (simp add: rerun_flip_ui_def flip_ui_eq run_def initOperations_def initCanvas_def
        preferredOperationOrder_def isOperationSelected_def flip_registry_def
        initOperations_loop.simps(2) Let_def new_Operation_def on_def eval_nat_numeral)
  have o1: "fst (run (isOperationSelected [''flip'']) flip_registry initial_ui) = Inr ()"
    by (simp add: run_fst preferredOperationOrder_def isOperationSelected_def flip_registry_def
        initOperations_loop.simps(2) Let_def)
  have o2: "fst (run (isOperationSelected [''flip'']) flip_registry flip_ui) = Inr ()"
    by (simp add: run_fst preferredOperationOrder_def isOperationSelected_def flip_registry_def
        initOperations_loop.simps(2) Let_def)
  show ?thesis
    by (simp add: o1 o2 flip_ui_def [symmetric] rerun_flip_ui_def [symmetric])
       (simp add: r flip_ui_eq flip_registry_def)
qed

subsection \<open>The update handler\<close>

lemma paused_flip_ui_eq:
  "paused_flip_ui =
     \<lparr>paused = True, operationsMap = [''flip'' \<mapsto> 0], operationsStack = [0],
      heap = [0 \<mapsto> \<lparr>params = ''FlipOperation'', isIdentity = Some True,
                      listeners = [(''update'', NightUI_update 0)]\<rparr>],
      next_ref = Suc 0, canvas = True, rendered = []\<rparr>"
  by (simp add: paused_flip_ui_def run_def initOperations_def initCanvas_def
      preferredOperationOrder_def isOperationSelected_def flip_registry_def initial_ui_def
      initOperations_loop.simps(2) Let_def new_Operation_def on_def)


lemma paused_listeners: "paused st \<Longrightarrow> call_listeners ls st = (Inr (), st)"
proof (induction ls)
  case Nil
  show ?case by simp
next
  case (Cons l ls)
  then show ?case by (cases l) simp
qed

lemma paused_emit: "paused st \<Longrightarrow> emit r ev st = (Inr (), st)"
  by (simp add: emit_def paused_listeners split: option.splits)

lemma emit_unpaused:
  assumes "heap st r = Some ob" and "listeners ob = [(''update'', NightUI_update r)]"
    and "\<not> paused st" and "canvas st"
  shows "emit r ''update'' st =
     (Inr (),
      st\<lparr>heap := (heap st)(r \<mapsto> ob\<lparr>isIdentity := Some False\<rparr>),
        rendered := rendered st @
          [map (\<lambda>q. map_option params (((heap st)(r \<mapsto> ob\<lparr>isIdentity := Some False\<rparr>)) q))
             (operationsStack st)]\<rparr>)"
  using assms by (simp add: emit_def render_def canvas_render_def)

text \<open>
  Before the canvas is assigned the handler throws: \<open>isIdentity\<close> has been set to
  \<open>false\<close> and nothing is rendered.
\<close>

lemma emit_without_canvas:
  assumes "heap st r = Some ob" and "listeners ob = [(''update'', NightUI_update r)]"
    and "\<not> paused st" and "\<not> canvas st"
  shows "emit r ''update'' st =
     (Inl (PropertyOfUndefined ''render''),
      st\<lparr>heap := (heap st)(r \<mapsto> ob\<lparr>isIdentity := Some False\<rparr>)\<rparr>)"
  using assms by (simp add: emit_def render_def)

lemma update_after_failed_run:
  "fst (run (isOperationSelected [''flip'', ''filters'']) flip_registry initial_ui)
     = Inl (NotAConstructor ''filters'')
   \<and> \<not> canvas (snd (run (isOperationSelected [''flip'', ''filters'']) flip_registry initial_ui))
   \<and> fst (emit 0 ''update''
        (snd (run (isOperationSelected [''flip'', ''filters'']) flip_registry initial_ui)))
     = Inl (PropertyOfUndefined ''render'')
   \<and> rendered (snd (emit 0 ''update''
        (snd (run (isOperationSelected [''flip'', ''filters'']) flip_registry initial_ui))))
     = []"
  by (simp add: run_def initOperations_def preferredOperationOrder_def isOperationSelected_def
      flip_registry_def initial_ui_def initOperations_loop.simps(2) Let_def new_Operation_def
      on_def emit_def render_def)

text \<open>
  Claim C4, as the code has it. Every instance that \<open>run\<close> enters in the
  operations map has \<open>isIdentity = true\<close> and the update handler as its listener,
  and a \<open>run\<close> that does not throw has assigned the canvas. For such an instance,
  on a UI that is not paused and has its canvas, an update event does not throw, sets
  \<open>isIdentity\<close> to \<open>false\<close>, adds one render pass and leaves the instance and
  the canvas ready for the next event; when the UI is paused the event changes
  nothing.
\<close>

theorem update_handler_effect:
  "(run selected registeredOperations st0 = (outcome, st1) \<and> operationsMap st1 i = Some r
      \<longrightarrow> map_option isIdentity (heap st1 r) = Some (Some True) \<and> initialised st1 r
        \<and> (outcome = Inr () \<longrightarrow> canvas st1))
   \<and> (initialised st r \<and> \<not> paused st \<and> canvas st
      \<longrightarrow> fst (emit r ''update'' st) = Inr ()
        \<and> map_option isIdentity (heap (snd (emit r ''update'' st)) r) = Some (Some False)
        \<and> length (rendered (snd (emit r ''update'' st))) = Suc (length (rendered st))
        \<and> initialised (snd (emit r ''update'' st)) r
        \<and> canvas (snd (emit r ''update'' st)))
   \<and> (paused st \<longrightarrow> emit r ''update'' st = (Inr (), st))"
proof (intro conjI impI)
  assume a: "run selected registeredOperations st0 = (outcome, st1) \<and> operationsMap st1 i = Some r"
  let ?st = "st0\<lparr>operationsMap := Map.empty\<rparr>"
  let ?res = "initOperations_loop selected registeredOperations preferredOperationOrder ?st"
  from a have st1: "st1 = snd (run selected registeredOperations st0)"
    and out: "outcome = fst (run selected registeredOperations st0)"
    by simp_all
  have m: "operationsMap (snd ?res) i = Some r"
    using a by (simp add: st1 run_fields)
  have "next_ref ?st \<le> r \<and> r < next_ref (snd ?res)"
    using loop_map_range [of selected registeredOperations preferredOperationOrder ?st i r] m
    by simp
  then obtain c where "heap (snd ?res) r =
      Some \<lparr>params = c, isIdentity = Some True, listeners = [(''update'', NightUI_update r)]\<rparr>"
    using loop_heap_new [of ?st r selected registeredOperations preferredOperationOrder]
    by auto
  then have h: "heap st1 r =
      Some \<lparr>params = c, isIdentity = Some True, listeners = [(''update'', NightUI_update r)]\<rparr>"
    by (simp add: st1 run_fields)
  from h show "map_option isIdentity (heap st1 r) = Some (Some True)" and "initialised st1 r"
    by (simp_all add: initialised_def)
  show "canvas st1" if "outcome = Inr ()"
    using that by (simp add: st1 out run_fields)
next
  assume a: "initialised st r \<and> \<not> paused st \<and> canvas st"
  then obtain ob where ob: "heap st r = Some ob" "listeners ob = [(''update'', NightUI_update r)]"
    by (auto simp add: initialised_def split: option.splits)
  from a have "\<not> paused st" and "canvas st" by simp_all
  note e = emit_unpaused [OF ob this]
  show "fst (emit r ''update'' st) = Inr ()"
    by (simp add: e)
  show "map_option isIdentity (heap (snd (emit r ''update'' st)) r) = Some (Some False)"
    by (simp add: e)
  show "length (rendered (snd (emit r ''update'' st))) = Suc (length (rendered st))"
    by (simp add: e)
  show "initialised (snd (emit r ''update'' st)) r"
    using ob by (simp add: e initialised_def)
  show "canvas (snd (emit r ''update'' st))"
    using a by (simp add: e)
next
  assume "paused st"
  then show "emit r ''update'' st = (Inr (), st)" by (rule paused_emit)
qed

theorem update_handler_effect_witness:
  "run (isOperationSelected [''flip'']) flip_registry initial_ui = (Inr (), flip_ui)
   \<and> operationsMap flip_ui ''flip'' = Some 0
   \<and> map_option isIdentity (heap flip_ui 0) = Some (Some True)
   \<and> initialised flip_ui 0 \<and> \<not> paused flip_ui \<and> canvas flip_ui
   \<and> fst (emit 0 ''update'' flip_ui) = Inr ()
   \<and> map_option isIdentity (heap (snd (emit 0 ''update'' flip_ui)) 0) = Some (Some False)
   \<and> length (rendered (snd (emit 0 ''update'' flip_ui))) = Suc (length (rendered flip_ui))
   \<and> paused paused_flip_ui
   \<and> emit 0 ''update'' paused_flip_ui = (Inr (), paused_flip_ui)"
proof -
  have h1: "run (isOperationSelected [''flip'']) flip_registry initial_ui = (Inr (), flip_ui)"
    by (simp add: prod_eq_iff flip_ui_def)
       (simp add: run_fst preferredOperationOrder_def isOperationSelected_def flip_registry_def
          initOperations_loop.simps(2) Let_def)
  have h2: "operationsMap flip_ui ''flip'' = Some 0"
    by (simp add: flip_ui_eq)
  have h3: "\<not> paused flip_ui"
    by (simp add: flip_ui_eq)
  have h4: "paused paused_flip_ui"
    by (simp add: paused_flip_ui_eq)
  have a: "map_option isIdentity (heap flip_ui 0) = Some (Some True) \<and> initialised flip_ui 0
      \<and> canvas flip_ui"
    using update_handler_effect
      [of "isOperationSelected [''flip'']" flip_registry initial_ui "Inr ()" flip_ui "''flip''" 0
          flip_ui]
      h1 h2 by blast
  have b: "fst (emit 0 ''update'' flip_ui) = Inr ()
      \<and> map_option isIdentity (heap (snd (emit 0 ''update'' flip_ui)) 0) = Some (Some False)
      \<and> length (rendered (snd (emit 0 ''update'' flip_ui))) = Suc (length (rendered flip_ui))"
    using update_handler_effect
      [of "isOperationSelected [''flip'']" flip_registry initial_ui "Inr ()" flip_ui "''flip''" 0
          flip_ui]
      a h3 by blast
  have c: "emit 0 ''update'' paused_flip_ui = (Inr (), paused_flip_ui)"
    using update_handler_effect
      [of "isOperationSelected [''flip'']" flip_registry initial_ui "Inr ()" flip_ui "''flip''" 0
          paused_flip_ui]
      h4 by blast
  show ?thesis
    using h1 h2 h3 h4 a b c by blast
qed

text \<open>
  Claim C4, as it is stated, fails: on a paused UI whose stack holds one instance, an
  update event of that instance leaves \<open>isIdentity\<close> at \<open>true\<close> and adds no
  render pass.
\<close>

theorem update_while_paused_counterexample:
  "operationsStack paused_flip_ui = [0]
   \<and> map_option isIdentity (heap paused_flip_ui 0) = Some (Some True)
   \<and> fst (emit 0 ''update'' paused_flip_ui) = Inr ()
   \<and> map_option isIdentity (heap (snd (emit 0 ''update'' paused_flip_ui)) 0) = Some (Some True)
   \<and> rendered (snd (emit 0 ''update'' paused_flip_ui)) = rendered paused_flip_ui"
  by (simp add: paused_flip_ui_eq emit_def)

subsection \<open>Pausing\<close>





section \<open>Properties of the filters\<close>

subsection \<open>The stacks\<close>

lemma OrchidFilter_wellFormed:
  "wellFormed (red OrchidFilter_rgbControlPoints)"
  "wellFormed (green OrchidFilter_rgbControlPoints)"
  "wellFormed (blue OrchidFilter_rgbControlPoints)"
  "wellFormed OrchidFilter_controlPoints"
  by (simp_all add: wellFormed_def OrchidFilter_rgbControlPoints_def OrchidFilter_controlPoints_def)

lemma FixieFilter_wellFormed:
  "wellFormed (red FixieFilter_rgbControlPoints)"
  "wellFormed (green FixieFilter_rgbControlPoints)"
  "wellFormed (blue FixieFilter_rgbControlPoints)"
  by (simp_all add: wellFormed_def FixieFilter_rgbControlPoints_def)

lemma FixieFilter_levelsInRange:
  "levelsInRange (red FixieFilter_rgbControlPoints)"
  "levelsInRange (green FixieFilter_rgbControlPoints)"
  "levelsInRange (blue FixieFilter_rgbControlPoints)"
  by (simp_all add: levelsInRange_def FixieFilter_rgbControlPoints_def)

lemma OrchidFilter_stack_eq:
  "OrchidFilter_stack =
     Inr [ToneCurve (RgbControlPoints OrchidFilter_rgbControlPoints),
          ToneCurve (ControlPoints OrchidFilter_controlPoints),
          Desaturation 0.65]"
  by (simp add: OrchidFilter_stack_def ToneCurve_new_def OrchidFilter_wellFormed
      PrimitivesStack_new_def PrimitivesStack_add_def Desaturation_new_def)

lemma FixieFilter_stack_eq:
  "FixieFilter_stack = Inr [ToneCurve (RgbControlPoints FixieFilter_rgbControlPoints)]"
  by (simp add: FixieFilter_stack_def ToneCurve_new_def FixieFilter_wellFormed
      PrimitivesStack_new_def PrimitivesStack_add_def)

text \<open>
  Claim C5. The stack that the Orchid filter builds holds exactly three primitives: the
  tone curve with a list for each channel, then the tone curve with one list, then the
  desaturation of 0.65; rendering it gives the renderer's output to the first
  primitive and the output of each primitive to the next. The stack that the Fixie
  filter builds holds exactly one primitive, the tone curve with a list for each
  channel.
\<close>

theorem filter_stacks:
  "(\<exists>p1 p2 p3.
      OrchidFilter_stack = Inr [p1, p2, p3]
    \<and> p1 = ToneCurve (RgbControlPoints OrchidFilter_rgbControlPoints)
    \<and> p2 = ToneCurve (ControlPoints OrchidFilter_controlPoints)
    \<and> p3 = Desaturation 0.65
    \<and> map_sum id (renderer_output \<circ> snd) (OrchidFilter_render renderPrimitive w) =
        Inr (renderPrimitive p3 (renderPrimitive p2 (renderPrimitive p1 (renderer_output w)))))
   \<and> (\<exists>p1.
      FixieFilter_stack = Inr [p1]
    \<and> p1 = ToneCurve (RgbControlPoints FixieFilter_rgbControlPoints)
    \<and> map_sum id (renderer_output \<circ> snd) (FixieFilter_render renderPrimitive w) =
        Inr (renderPrimitive p1 (renderer_output w)))"
  by (simp add: OrchidFilter_stack_eq FixieFilter_stack_eq OrchidFilter_render_def
      FixieFilter_render_def PrimitivesStack_render_def)

text \<open>
  Claim C8. Each of the seven lists of control points in the two filters has at least
  two points, strictly increasing input levels and all levels between 0 and 255, so
  no construction of a tone curve in the two filters is a configuration error.
\<close>

theorem control_points_well_formed:
  "wellFormed (red OrchidFilter_rgbControlPoints) \<and> levelsInRange (red OrchidFilter_rgbControlPoints)
   \<and> wellFormed (green OrchidFilter_rgbControlPoints) \<and> levelsInRange (green OrchidFilter_rgbControlPoints)
   \<and> wellFormed (blue OrchidFilter_rgbControlPoints) \<and> levelsInRange (blue OrchidFilter_rgbControlPoints)
   \<and> wellFormed OrchidFilter_controlPoints \<and> levelsInRange OrchidFilter_controlPoints
   \<and> wellFormed (red FixieFilter_rgbControlPoints) \<and> levelsInRange (red FixieFilter_rgbControlPoints)
   \<and> wellFormed (green FixieFilter_rgbControlPoints) \<and> levelsInRange (green FixieFilter_rgbControlPoints)
   \<and> wellFormed (blue FixieFilter_rgbControlPoints) \<and> levelsInRange (blue FixieFilter_rgbControlPoints)
   \<and> ToneCurve_new (RgbControlPoints OrchidFilter_rgbControlPoints) \<noteq> Inl ConfigurationError
   \<and> ToneCurve_new (ControlPoints OrchidFilter_controlPoints) \<noteq> Inl ConfigurationError
   \<and> ToneCurve_new (RgbControlPoints FixieFilter_rgbControlPoints) \<noteq> Inl ConfigurationError
   \<and> OrchidFilter_stack \<noteq> Inl ConfigurationError
   \<and> FixieFilter_stack \<noteq> Inl ConfigurationError"
  by (simp add: OrchidFilter_wellFormed FixieFilter_wellFormed ToneCurve_new_def
        OrchidFilter_stack_eq FixieFilter_stack_eq)
     (simp add: levelsInRange_def OrchidFilter_rgbControlPoints_def OrchidFilter_controlPoints_def
        FixieFilter_rgbControlPoints_def)

text \<open>
  Claim C10. For every renderer, the \<open>render\<close> of the Orchid filter and of the
  Fixie filter hand back \<open>undefined\<close>.
\<close>

theorem render_returns_undefined:
  "(\<exists>w'. OrchidFilter_render renderPrimitive w = Inr (Undefined, w'))
   \<and> (\<exists>w'. FixieFilter_render renderPrimitive w = Inr (Undefined, w'))"
  by (simp add: OrchidFilter_stack_eq FixieFilter_stack_eq OrchidFilter_render_def
      FixieFilter_render_def)

subsection \<open>The tone curve passes through its control points\<close>

lemma catmullRom_start: "0 < d \<Longrightarrow> catmullRom p0 p1 p2 p3 0 d = p1"
proof -
  assume d: "0 < d"
  then have D: "0 < d ^ 3" by simp
  have "(2 * (2 * p1 * d ^ 3) + 2 * d ^ 3) div (2 * (2 * d ^ 3)) =
      (2 * d ^ 3 + p1 * (4 * d ^ 3)) div (4 * d ^ 3)"
    by (simp add: algebra_simps)
  also have "\<dots> = (2 * d ^ 3) div (4 * d ^ 3) + p1"
    using D by (subst div_mult_self1) simp_all
  also have "(2 * d ^ 3) div (4 * d ^ 3) = 0"
    using D by (simp add: div_pos_pos_trivial)
  finally show ?thesis by (simp add: catmullRom_def Let_def)
qed

lemma spline_from_through:
  "sorted_wrt (<) (map fst points) \<Longrightarrow> (x, y) \<in> set points \<Longrightarrow> spline_from p0 points x = y"
proof (induction p0 points x rule: spline_from.induct)
  case (1 p0 x)
  then show ?case by simp
next
  case (2 p0 x1 y1 x)
  then show ?case by simp
next
  case (3 p0 x1 y1 x2 y2 rest x)
  show ?case
  proof (cases "(x, y) = (x1, y1)")
    case True
    then show ?thesis using "3.prems"(1) by (simp add: catmullRom_start)
  next
    case False
    then have mem: "(x, y) \<in> set ((x2, y2) # rest)" using "3.prems"(2) by auto
    then have "x2 \<le> x" using "3.prems"(1) by (auto simp add: less_imp_le)
    moreover have "x1 < x2" using "3.prems"(1) by simp
    ultimately show ?thesis using "3.IH" "3.prems"(1) mem by simp
  qed
qed

lemma splineValue_through:
  "sorted_wrt (<) (map fst points) \<Longrightarrow> (x, y) \<in> set points \<Longrightarrow> splineValue points x = y"
  by (cases points) (auto simp add: splineValue_def spline_from_through simp del: spline_from.simps)

lemma lookupTable_through:
  assumes "wellFormed points" and "levelsInRange points" and "(x, y) \<in> set points"
  shows "ToneCurve_lookupTable points ! nat x = y"
proof -
  have r: "0 \<le> x \<and> x \<le> 255 \<and> 0 \<le> y \<and> y \<le> 255"
    using assms(2,3) by (auto simp add: levelsInRange_def list_all_iff)
  then have "nat x < 256" by arith
  then have "ToneCurve_lookupTable points ! nat x = max 0 (min 255 (splineValue points x))"
    using r by (simp add: ToneCurve_lookupTable_def del: upt_Suc)
  then show ?thesis
    using assms(1,3) r by (simp add: wellFormed_def splineValue_through)
qed

text \<open>
  Claim C6. The table of the red channel of the Fixie filter has 256 entries and holds,
  at the input level of each control point of the channel, the output level of that
  point; its entry at 128 is 132. The Fixie filter's only primitive takes the red
  channel of the mid-grey pixel (128, 128, 128) to 132.
\<close>

theorem fixie_red_curve_through_control_points:
  "ToneCurve_lookupTable (red FixieFilter_rgbControlPoints) ! 128 = 132
   \<and> length (ToneCurve_lookupTable (red FixieFilter_rgbControlPoints)) = 256
   \<and> map (\<lambda>(x, y). ToneCurve_lookupTable (red FixieFilter_rgbControlPoints) ! nat x)
        (red FixieFilter_rgbControlPoints) = map snd (red FixieFilter_rgbControlPoints)
   \<and> FixieFilter_stack = Inr [ToneCurve (RgbControlPoints FixieFilter_rgbControlPoints)]
   \<and> fst (ToneCurve_apply (RgbControlPoints FixieFilter_rgbControlPoints) (128, 128, 128)) = 132"
proof -
  let ?red = "red FixieFilter_rgbControlPoints"
  note through = lookupTable_through [OF FixieFilter_wellFormed(1) FixieFilter_levelsInRange(1)]
  have "(128, 132) \<in> set ?red"
    by (simp add: FixieFilter_rgbControlPoints_def)
  from through [OF this] have at128: "ToneCurve_lookupTable ?red ! 128 = 132"
    by simp
  have len: "length (ToneCurve_lookupTable ?red) = 256"
    by (simp add: ToneCurve_lookupTable_def del: upt_Suc)
  have "\<forall>p \<in> set ?red. (case p of (x, y) \<Rightarrow> ToneCurve_lookupTable ?red ! nat x) = snd p"
    using through by auto
  then have all: "map (\<lambda>(x, y). ToneCurve_lookupTable ?red ! nat x) ?red = map snd ?red"
    by (simp only: map_eq_conv)
  have px: "fst (ToneCurve_apply (RgbControlPoints FixieFilter_rgbControlPoints) (128, 128, 128)) = 132"
    by (simp add: ToneCurve_apply_def at128)
  show ?thesis
    using at128 len all px FixieFilter_stack_eq by blast
qed

end
